theory Spec2Isabelle
  imports Main "HOL-Library.Word"
begin

section \<open>JavaScript values\<close>

text \<open>
  \<^verbatim>\<open>XmlBuilder.build\<close> takes any JavaScript value as a node. The values modelled are the
  plain data values a node tree is made of: \<^verbatim>\<open>undefined\<close>, \<^verbatim>\<open>null\<close>, booleans, numbers,
  strings (lists of code units), arrays (dense, with no extra properties) and plain
  objects. A number is an integer from \<open>- 2 ^ 53\<close> to \<open>2 ^ 53 - 1\<close>, held as a 54-bit
  word read as two's complement: JavaScript represents each of these exactly and prints
  its exact decimal digits. A plain object is the list of its own enumerable properties
  in the order JavaScript enumerates them (a list that repeats a key stands for no
  object; nothing below depends on the keys being distinct); its prototype is
  \<^verbatim>\<open>Object.prototype\<close>. No value of the model is callable. Functions, symbols, class
  instances, fractions, \<^verbatim>\<open>NaN\<close> and cyclic structures are outside the model, and so are
  the depth of the call stack and the length of a string: the recursion of the model is
  not bounded.
\<close>

datatype jsval =
    JUndefined
  | JNull
  | JBool bool
  | JNum "54 word"
  | JStr string
  | JArr "jsval list"
  | JObj "(string \<times> jsval) list"

text \<open>
  The errors the builder throws: the \<^verbatim>\<open>Error\<close> it constructs, with its message, and the
  \<^verbatim>\<open>TypeError\<close> of the engine when a value cannot be converted to a string (its message
  depends on the engine).
\<close>

datatype error = Error string | TypeError

text \<open>The decimal form of a number, as \<^verbatim>\<open>Number.prototype.toString\<close> prints an integer.\<close>

definition digit_char :: "nat \<Rightarrow> char" where
  "digit_char d = ''0123456789'' ! d"

function nat_to_string :: "nat \<Rightarrow> string" where
  "nat_to_string n =
     (if n < 10 then [digit_char n]
      else nat_to_string (n div 10) @ [digit_char (n mod 10)])"
  by pat_completeness auto
termination
  by (relation "measure id") auto

declare nat_to_string.simps [simp del]

definition int_to_string :: "int \<Rightarrow> string" where
  "int_to_string n =
     (if n < 0 then ''-'' @ nat_to_string (nat (- n)) else nat_to_string (nat n))"

text \<open>\<^verbatim>\<open>_.isNil(value)\<close>: \<^verbatim>\<open>value == null\<close>.\<close>

definition isNil :: "jsval \<Rightarrow> bool" where
  "isNil v = (v = JUndefined \<or> v = JNull)"

text \<open>\<^verbatim>\<open>Array.prototype.join\<close> with the separator \<^verbatim>\<open>","\<close>, on the strings of the elements.\<close>

fun join_comma :: "string list \<Rightarrow> string" where
  "join_comma [] = []"
| "join_comma [s] = s"
| "join_comma (s # t # ss) = s @ '','' @ join_comma (t # ss)"

text \<open>A conversion applied to the elements of a list from the left; the first throw ends it.\<close>

fun collect :: "('a \<Rightarrow> error + 'b) \<Rightarrow> 'a list \<Rightarrow> error + 'b list" where
  "collect f [] = Inr []"
| "collect f (x # xs) =
     (case f x of
        Inl e \<Rightarrow> Inl e
      | Inr y \<Rightarrow> (case collect f xs of Inl e \<Rightarrow> Inl e | Inr ys \<Rightarrow> Inr (y # ys)))"

lemma collect_cong [fundef_cong]:
  "xs = ys \<Longrightarrow> (\<And>x. x \<in> set ys \<Longrightarrow> f x = g x) \<Longrightarrow> collect f xs = collect g ys"
  by (induction ys arbitrary: xs) (auto split: sum.splits)

text \<open>
  The string form of a value: what string concatenation (\<^verbatim>\<open>xml += v\<close>), a template literal
  (\<^verbatim>\<open>`${v}`\<close>) and, on a value that is not nil, \<^verbatim>\<open>v.toString()\<close> produce. An array joins
  the string forms of its elements with commas, a nil element giving the empty string. A
  plain object gives \<^verbatim>\<open>[object Object]\<close> through \<^verbatim>\<open>Object.prototype.toString\<close>, unless it has
  an own property \<^verbatim>\<open>toString\<close>: that property is not callable, so \<^verbatim>\<open>v.toString()\<close> throws a
  \<^verbatim>\<open>TypeError\<close>, and so does the conversion to a primitive (\<^verbatim>\<open>valueOf\<close> is tried next and
  does not give a primitive).
\<close>

fun ToString :: "jsval \<Rightarrow> error + string" where
  "ToString JUndefined = Inr ''undefined''"
| "ToString JNull = Inr ''null''"
| "ToString (JBool b) = Inr (if b then ''true'' else ''false'')"
| "ToString (JNum n) = Inr (int_to_string (sint n))"
| "ToString (JStr s) = Inr s"
| "ToString (JArr xs) =
     (case collect (\<lambda>x. if isNil x then Inr [] else ToString x) xs of
        Inl e \<Rightarrow> Inl e
      | Inr ss \<Rightarrow> Inr (join_comma ss))"
| "ToString (JObj ps) =
     (if ''toString'' \<in> set (map fst ps) then Inl TypeError else Inr ''[object Object]'')"

text \<open>Truthiness, as \<^verbatim>\<open>!v\<close> and \<^verbatim>\<open>a && b\<close> test it.\<close>

fun truthy :: "jsval \<Rightarrow> bool" where
  "truthy JUndefined = False"
| "truthy JNull = False"
| "truthy (JBool b) = b"
| "truthy (JNum n) = (n \<noteq> 0)"
| "truthy (JStr s) = (s \<noteq> [])"
| "truthy (JArr xs) = True"
| "truthy (JObj ps) = True"

text \<open>
  The index keys \<^verbatim>\<open>"0"\<close>, \<^verbatim>\<open>"1"\<close>, ... of an array or a string, paired with the elements.
\<close>

definition indexed :: "'a list \<Rightarrow> (string \<times> 'a) list" where
  "indexed xs = zip (map nat_to_string [0..<length xs]) xs"

text \<open>The characters of a string, each a string of length one.\<close>

definition chars_of :: "string \<Rightarrow> jsval list" where
  "chars_of s = map (\<lambda>c. JStr [c]) s"

text \<open>
  The own enumerable string-keyed properties of a value in enumeration order
  (\<^verbatim>\<open>for (key in Object(v)) if (hasOwnProperty.call(v, key))\<close>).
\<close>

fun ownEntries :: "jsval \<Rightarrow> (string \<times> jsval) list" where
  "ownEntries (JObj ps) = ps"
| "ownEntries (JArr xs) = indexed xs"
| "ownEntries (JStr s) = indexed (chars_of s)"
| "ownEntries v = []"

text \<open>
  A property read \<^verbatim>\<open>node[key]\<close> on an object or an array: the own property, the
  \<^verbatim>\<open>length\<close> of an array (an array has fewer than \<open>2 ^ 32\<close> elements), and \<^verbatim>\<open>undefined\<close>
  otherwise (none of the keys the builder reads is on a prototype). The builder reads
  properties of values that passed \<^verbatim>\<open>_.isObject\<close> only.
\<close>

definition lookup :: "(string \<times> jsval) list \<Rightarrow> string \<Rightarrow> jsval" where
  "lookup ps key = (case map_of ps key of Some x \<Rightarrow> x | None \<Rightarrow> JUndefined)"

definition get_prop :: "jsval \<Rightarrow> string \<Rightarrow> jsval" where
  "get_prop v key =
     (case v of
        JObj ps \<Rightarrow> lookup ps key
      | JArr xs \<Rightarrow>
          if key = ''length'' then JNum (of_nat (length xs)) else lookup (indexed xs) key
      | _ \<Rightarrow> JUndefined)"

section \<open>The lodash functions the builder calls\<close>

text \<open>
  lodash is a dependency, not part of the repository. Its functions are modelled from
  lodash 4 on the values above.
\<close>

text \<open>\<^verbatim>\<open>_.isObject(value)\<close>: the value is not null and its type is \<^verbatim>\<open>object\<close> or \<^verbatim>\<open>function\<close>.\<close>

fun isObject :: "jsval \<Rightarrow> bool" where
  "isObject (JArr xs) = True"
| "isObject (JObj ps) = True"
| "isObject v = False"

text \<open>
  \<^verbatim>\<open>isLength(value)\<close>: a number that is an integer from 0 to \<^verbatim>\<open>Number.MAX_SAFE_INTEGER\<close>.
\<close>

fun isLength :: "jsval \<Rightarrow> bool" where
  "isLength (JNum n) = (0 \<le> sint n \<and> sint n \<le> 9007199254740991)"
| "isLength v = False"

text \<open>
  \<^verbatim>\<open>isArrayLike(value)\<close>: \<^verbatim>\<open>value != null && isLength(value.length) && !isFunction(value)\<close>.
  An array and a string have a length; a number or a boolean has none; a plain object is
  array-like when it has an own property \<^verbatim>\<open>length\<close> that is a valid length.
\<close>

fun isArrayLike :: "jsval \<Rightarrow> bool" where
  "isArrayLike (JArr xs) = True"
| "isArrayLike (JStr s) = True"
| "isArrayLike (JObj ps) = isLength (lookup ps ''length'')"
| "isArrayLike v = False"

text \<open>
  \<^verbatim>\<open>_.isEmpty(value)\<close>: nil is empty; an array or a string is empty when its length is 0;
  any other value is empty when it has no own enumerable property.
\<close>

fun isEmpty :: "jsval \<Rightarrow> bool" where
  "isEmpty JUndefined = True"
| "isEmpty JNull = True"
| "isEmpty (JArr xs) = (xs = [])"
| "isEmpty (JStr s) = (s = [])"
| "isEmpty v = (ownEntries v = [])"

text \<open>
  \<^verbatim>\<open>_.forOwn(object, iteratee)\<close> is \<^verbatim>\<open>object && baseForOwn(object, iteratee)\<close>: the iteratee
  is called on each own enumerable property (value, key) of a truthy value. The builder's
  iteratee returns \<^verbatim>\<open>undefined\<close>, so the iteration never exits early. This is the list
  of the properties visited.
\<close>

definition forOwn_entries :: "jsval \<Rightarrow> (string \<times> jsval) list" where
  "forOwn_entries object = (if truthy object then ownEntries object else [])"

text \<open>
  \<^verbatim>\<open>_.forEach(collection, iteratee)\<close>: an array gives its elements; nil gives nothing; a
  value that is not array-like gives the values of its own properties (a number or a
  boolean has none); an array-like value gives \<^verbatim>\<open>Object(collection)[index]\<close> for every
  index below \<^verbatim>\<open>collection.length\<close>: a string its characters, an array-like plain
  object the properties whose keys are the indices, \<^verbatim>\<open>undefined\<close> where it has none. The
  builder's iteratee returns \<^verbatim>\<open>undefined\<close>, so the iteration never exits early. This is
  the list of the values visited.
\<close>

definition forEach_items :: "jsval \<Rightarrow> jsval list" where
  "forEach_items collection =
     (case collection of
        JArr xs \<Rightarrow> xs
      | JStr s \<Rightarrow> chars_of s
      | JObj ps \<Rightarrow>
          if \<not> isArrayLike (JObj ps) then map snd ps
          else (case lookup ps ''length'' of
                  JNum n \<Rightarrow>
                    map (\<lambda>index. lookup ps (nat_to_string index)) [0..<nat (sint n)]
                | _ \<Rightarrow> [])
      | _ \<Rightarrow> [])"

section \<open>XmlBuilder\<close>

subsection \<open>\<^verbatim>\<open>_escapeString\<close>\<close>

text \<open>\<^verbatim>\<open>s.replace(/c/g, r)\<close> for a single character \<^verbatim>\<open>c\<close>: every occurrence is replaced.\<close>

definition replace_all :: "char \<Rightarrow> string \<Rightarrow> string \<Rightarrow> string" where
  "replace_all c r s = concat (map (\<lambda>x. if x = c then r else [x]) s)"

text \<open>
  \<^verbatim>\<open>_escapeString(value)\<close>: nil is returned as it is; any other value is converted with
  \<^verbatim>\<open>toString()\<close>, which may throw, and the five replacements run one after the other,
  \<^verbatim>\<open>&\<close> first (\<open>CHR 0x22\<close> is the double quote, \<open>CHR 0x27\<close> the apostrophe).
\<close>

definition priv_escapeString :: "jsval \<Rightarrow> error + jsval" where
  "priv_escapeString v =
     (if isNil v then Inr v
      else
        (case ToString v of
           Inl e \<Rightarrow> Inl e
         | Inr s \<Rightarrow>
             Inr (JStr (replace_all (CHR ''>'') ''&gt;''
                       (replace_all (CHR ''<'') ''&lt;''
                       (replace_all (CHR 0x27) ''&apos;''
                       (replace_all (CHR 0x22) ''&quot;''
                       (replace_all (CHR ''&'') ''&amp;'' s))))))))"

text \<open>
  The string that \<^verbatim>\<open>this._escapeString(value)\<close> contributes where the builder uses it,
  inside a template literal and on the right of \<^verbatim>\<open>xml +=\<close>: the string form of what the
  call returns.
\<close>

definition escaped_text :: "jsval \<Rightarrow> error + string" where
  "escaped_text v = (case priv_escapeString v of Inl e \<Rightarrow> Inl e | Inr r \<Rightarrow> ToString r)"

subsection \<open>The instance state\<close>

text \<open>
  An instance has the fields \<^verbatim>\<open>_i\<close> (the count of nodes visited) and \<^verbatim>\<open>_c\<close> (the
  character last read by the flatten probe). A new instance has neither: \<^verbatim>\<open>_i\<close> is
  \<open>Unset\<close> and \<^verbatim>\<open>_c\<close> reads as \<^verbatim>\<open>undefined\<close>. Incrementing an unset field gives \<^verbatim>\<open>NaN\<close>.
\<close>

datatype counter = Unset | NaN | Count nat

record XmlBuilder =
  fld_i :: counter
  fld_c :: jsval

text \<open>\<^verbatim>\<open>xml[0]\<close>: the first character, or \<^verbatim>\<open>undefined\<close> on the empty string.\<close>

definition first_char :: "string \<Rightarrow> jsval" where
  "first_char xml = (case xml of [] \<Rightarrow> JUndefined | c # cs \<Rightarrow> JStr [c])"

text \<open>
  \<^verbatim>\<open>if (this._i++ % 100000 === 0) this._c = xml[0];\<close> The test reads the value before
  the increment; \<^verbatim>\<open>NaN % 100000 === 0\<close> is false.
\<close>

definition flatten_probe :: "XmlBuilder \<Rightarrow> string \<Rightarrow> XmlBuilder" where
  "flatten_probe b xml =
     (case fld_i b of
        Count n \<Rightarrow>
          if n mod 100000 = 0 then b\<lparr>fld_i := Count (Suc n), fld_c := first_char xml\<rparr>
          else b\<lparr>fld_i := Count (Suc n)\<rparr>
      | _ \<Rightarrow> b\<lparr>fld_i := NaN\<rparr>)"

subsection \<open>\<^verbatim>\<open>_build\<close>\<close>

text \<open>
  The attribute loop: \<^verbatim>\<open>xml += ` ${name}="${this._escapeString(value)}"`\<close> for each own
  property of \<^verbatim>\<open>node.attributes\<close> in turn; a throw ends the loop.
\<close>

definition add_attribute :: "string \<Rightarrow> string \<times> jsval \<Rightarrow> error + string" where
  "add_attribute xml kv =
     (case escaped_text (snd kv) of
        Inl e \<Rightarrow> Inl e
      | Inr s \<Rightarrow> Inr (xml @ '' '' @ fst kv @ ''=\"'' @ s @ ''\"''))"

fun forOwn_acc :: "(string \<Rightarrow> 'a \<Rightarrow> error + string) \<Rightarrow> string \<Rightarrow> 'a list \<Rightarrow> error + string" where
  "forOwn_acc f xml [] = Inr xml"
| "forOwn_acc f xml (entry # rest) =
     (case f xml entry of
        Inl e \<Rightarrow> Inl e
      | Inr xml' \<Rightarrow> forOwn_acc f xml' rest)"

definition add_attributes :: "jsval \<Rightarrow> string \<Rightarrow> error + string" where
  "add_attributes attributes xml = forOwn_acc add_attribute xml (forOwn_entries attributes)"

text \<open>
  The children loop: \<^verbatim>\<open>xml = this._build(child, xml)\<close> for each child in turn, the
  instance state and the string threaded through; a throw ends the loop.
\<close>

fun forEach_acc ::
  "('s \<Rightarrow> 'a \<Rightarrow> string \<Rightarrow> 's \<times> (error + string)) \<Rightarrow> 's \<Rightarrow> 'a list \<Rightarrow> string
     \<Rightarrow> 's \<times> (error + string)" where
  "forEach_acc f b [] xml = (b, Inr xml)"
| "forEach_acc f b (child # rest) xml =
     (case f b child xml of
        (b', Inl e) \<Rightarrow> (b', Inl e)
      | (b', Inr xml') \<Rightarrow> forEach_acc f b' rest xml')"

lemma forEach_acc_cong [fundef_cong]:
  "b = b' \<Longrightarrow> xs = ys \<Longrightarrow> xml = xml' \<Longrightarrow> (\<And>s x m. x \<in> set ys \<Longrightarrow> f s x m = g s x m)
     \<Longrightarrow> forEach_acc f b xs xml = forEach_acc g b' ys xml'"
proof (induction ys arbitrary: b b' xs xml xml')
  case Nil
  then show ?case by simp
next
  case (Cons y ys)
  then show ?case by (auto split: prod.splits sum.splits)
qed

lemma size_member: "x \<in> set xs \<Longrightarrow> size x < Suc (size_list size xs)"
  by (induction xs) auto

lemma size_entry:
  "(key, x) \<in> set ps \<Longrightarrow> size x < Suc (size_list (size_prod (\<lambda>_. 0) size) ps)"
  by (induction ps) auto

lemma size_lookup_obj:
  "size (lookup ps key) < Suc (size_list (size_prod (\<lambda>_. 0) size) ps)"
proof (cases "map_of ps key")
  case None
  then show ?thesis by (simp add: lookup_def)
next
  case (Some x)
  then have "(key, x) \<in> set ps" by (rule map_of_SomeD)
  then have "size x < Suc (size_list (size_prod (\<lambda>_. 0) size) ps)" by (rule size_entry)
  with Some show ?thesis by (simp add: lookup_def)
qed

lemma size_lookup_indexed: "size (lookup (indexed xs) key) < Suc (size_list size xs)"
proof (cases "map_of (indexed xs) key")
  case None
  then show ?thesis by (simp add: lookup_def)
next
  case (Some x)
  then have "(key, x) \<in> set (indexed xs)" by (rule map_of_SomeD)
  then have "x \<in> set xs" by (auto simp: indexed_def dest: set_zip_rightD)
  then have "size x < Suc (size_list size xs)" by (rule size_member)
  with Some show ?thesis by (simp add: lookup_def)
qed

lemma size_prop: "isObject v \<Longrightarrow> size (get_prop v key) < size v"
  using size_lookup_obj size_lookup_indexed
  by (cases v) (auto simp: get_prop_def)

lemma size_forEach_items: "x \<in> set (forEach_items v) \<Longrightarrow> size x \<le> size v"
proof (cases v)
  case (JArr xs)
  assume "x \<in> set (forEach_items v)"
  with JArr have "x \<in> set xs" by (simp add: forEach_items_def)
  then have "size x < Suc (size_list size xs)" by (rule size_member)
  with JArr show ?thesis by simp
next
  case (JObj ps)
  assume "x \<in> set (forEach_items v)"
  then have "(\<exists>key. (key, x) \<in> set ps) \<or> (\<exists>key. x = lookup ps key)"
    by (auto simp: JObj forEach_items_def split: if_splits jsval.splits)
  then have "size x < Suc (size_list (size_prod (\<lambda>_. 0) size) ps)"
    using size_entry size_lookup_obj by auto
  with JObj show ?thesis by simp
qed (auto simp: forEach_items_def chars_of_def)

text \<open>
  \<^verbatim>\<open>_build(node, xml)\<close> returns the instance state it leaves and either the error thrown
  or the string returned.
\<close>

function priv_build :: "XmlBuilder \<Rightarrow> jsval \<Rightarrow> string \<Rightarrow> XmlBuilder \<times> (error + string)" where
  "priv_build b node xml =
     (let b1 = flatten_probe b xml in
      if isObject node then
        if \<not> truthy (get_prop node ''name'') then (b1, Inl (Error ''XML node does not have name''))
        else
          (case ToString (get_prop node ''name'') of
             Inl e \<Rightarrow> (b1, Inl e)
           | Inr name \<Rightarrow>
               (case add_attributes (get_prop node ''attributes'') (xml @ ''<'' @ name) of
                  Inl e \<Rightarrow> (b1, Inl e)
                | Inr xml2 \<Rightarrow>
                    if isEmpty (get_prop node ''children'') then (b1, Inr (xml2 @ ''/>''))
                    else
                      (case forEach_acc (\<lambda>s child m. priv_build s child m) b1
                              (forEach_items (get_prop node ''children'')) (xml2 @ ''>'') of
                         (b2, Inl e) \<Rightarrow> (b2, Inl e)
                       | (b2, Inr xml3) \<Rightarrow>
                           (case ToString (get_prop node ''name'') of
                              Inl e \<Rightarrow> (b2, Inl e)
                            | Inr name' \<Rightarrow> (b2, Inr (xml3 @ ''</'' @ name' @ ''>''))))))
      else
        (case escaped_text node of
           Inl e \<Rightarrow> (b1, Inl e)
         | Inr s \<Rightarrow> (b1, Inr (xml @ s))))"
  by pat_completeness auto
termination
proof (relation "measure (\<lambda>(b, node, xml). size node)")
  show "wf (measure (\<lambda>(b, node, xml). size node))" by simp
next
  fix b :: XmlBuilder and node :: jsval and xml :: string
    and s :: XmlBuilder and child :: jsval and m :: string
  assume "isObject node" and "child \<in> set (forEach_items (get_prop node ''children''))"
  then have "size child < size node"
    using size_forEach_items [of child "get_prop node ''children''"]
      size_prop [of node "''children''"]
    by simp
  then show "((s, child, m), b, node, xml) \<in> measure (\<lambda>(b, node, xml). size node)"
    by simp
qed

declare priv_build.simps [simp del]

subsection \<open>\<^verbatim>\<open>build\<close>\<close>

definition xml_declaration :: string where
  "xml_declaration = ''<?xml version=\"1.0\" encoding=\"UTF-8\" standalone=\"yes\"?>''"

text \<open>\<^verbatim>\<open>build(node)\<close>: the counter is set to 0 and \<^verbatim>\<open>_build\<close> runs on the declaration.\<close>

definition build :: "XmlBuilder \<Rightarrow> jsval \<Rightarrow> XmlBuilder \<times> (error + string)" where
  "build b node = priv_build (b\<lparr>fld_i := Count 0\<rparr>) node xml_declaration"

section \<open>Notions the claims are stated with\<close>

text \<open>The five characters the escape function replaces, and the entity each one becomes.\<close>

definition special :: "char \<Rightarrow> bool" where
  "special c =
     (c = CHR ''&'' \<or> c = CHR 0x22 \<or> c = CHR 0x27 \<or> c = CHR ''<'' \<or> c = CHR ''>'')"

definition escape_char :: "char \<Rightarrow> string" where
  "escape_char c =
     (if c = CHR ''&'' then ''&amp;''
      else if c = CHR 0x22 then ''&quot;''
      else if c = CHR 0x27 then ''&apos;''
      else if c = CHR ''<'' then ''&lt;''
      else if c = CHR ''>'' then ''&gt;''
      else [c])"

text \<open>
  Modelled from the spec: XML-unescaping, which the round-trip law of the escape
  function speaks of. The repository has no reverse direction (XML parsing is a non-goal
  of the spec). XML-unescaping reads the string from the left and replaces each of the
  five predefined entity references \<^verbatim>\<open>&amp;\<close>, \<^verbatim>\<open>&quot;\<close>, \<^verbatim>\<open>&apos;\<close>, \<^verbatim>\<open>&lt;\<close>, \<^verbatim>\<open>&gt;\<close>
  by its character; any other character stands for itself.
\<close>

fun strip_prefix :: "string \<Rightarrow> string \<Rightarrow> string option" where
  "strip_prefix [] s = Some s"
| "strip_prefix (p # ps) [] = None"
| "strip_prefix (p # ps) (c # cs) = (if p = c then strip_prefix ps cs else None)"

definition entity_table :: "(string \<times> char) list" where
  "entity_table =
     [(''amp;'', CHR ''&''), (''quot;'', CHR 0x22), (''apos;'', CHR 0x27),
      (''lt;'', CHR ''<''), (''gt;'', CHR ''>'')]"

fun decode_entity :: "(string \<times> char) list \<Rightarrow> string \<Rightarrow> (char \<times> string) option" where
  "decode_entity [] s = None"
| "decode_entity ((name, c) # es) s =
     (case strip_prefix name s of
        Some rest \<Rightarrow> Some (c, rest)
      | None \<Rightarrow> decode_entity es s)"

lemma strip_prefix_length: "strip_prefix p s = Some rest \<Longrightarrow> length rest \<le> length s"
  by (induction p s rule: strip_prefix.induct) (auto split: if_splits)

lemma decode_entity_length:
  "decode_entity es s = Some (c, rest) \<Longrightarrow> length rest \<le> length s"
  by (induction es s rule: decode_entity.induct)
    (auto split: option.splits dest: strip_prefix_length)

function xml_unescape :: "string \<Rightarrow> string" where
  "xml_unescape [] = []"
| "xml_unescape (c # cs) =
     (if c = CHR ''&'' then
        (case decode_entity entity_table cs of
           Some (d, rest) \<Rightarrow> d # xml_unescape rest
         | None \<Rightarrow> c # xml_unescape cs)
      else c # xml_unescape cs)"
  by pat_completeness auto
termination
  by (relation "measure length") (auto dest: decode_entity_length)

text \<open>The escape function applied to what it returned.\<close>

definition escape_twice :: "jsval \<Rightarrow> error + jsval" where
  "escape_twice v = (case priv_escapeString v of Inl e \<Rightarrow> Inl e | Inr r \<Rightarrow> priv_escapeString r)"

text \<open>
  The tree the traversal walks has an element node whose \<^verbatim>\<open>name\<close> is falsy: the node itself,
  or, when it is a named element whose children are not empty, one of the nodes the
  children loop visits, at any depth.
\<close>

function unnamed_element_reached :: "jsval \<Rightarrow> bool" where
  "unnamed_element_reached node =
     (if isObject node then
        if \<not> truthy (get_prop node ''name'') then True
        else if isEmpty (get_prop node ''children'') then False
        else list_ex unnamed_element_reached (forEach_items (get_prop node ''children''))
      else False)"
  by pat_completeness auto
termination
proof (relation "measure size")
  show "wf (measure size)" by simp
next
  fix node x
  assume "isObject node" and "x \<in> set (forEach_items (get_prop node ''children''))"
  then have "size x < size node"
    using size_forEach_items [of x "get_prop node ''children''"]
      size_prop [of node "''children''"]
    by simp
  then show "(x, node) \<in> measure size" by simp
qed

declare unnamed_element_reached.simps [simp del]

text \<open>
  The tree the traversal walks has a named element node with a name or an attribute value
  that cannot be converted to a string: the node itself, or, when its children are not
  empty, one of the nodes the children loop visits, at any depth.
\<close>

definition unconvertible :: "jsval \<Rightarrow> bool" where
  "unconvertible node =
     (isl (ToString (get_prop node ''name''))
      \<or> list_ex (\<lambda>kv. isl (escaped_text (snd kv))) (forOwn_entries (get_prop node ''attributes'')))"

function conversion_fails_reached :: "jsval \<Rightarrow> bool" where
  "conversion_fails_reached node =
     (if isObject node then
        if \<not> truthy (get_prop node ''name'') then False
        else if unconvertible node then True
        else if isEmpty (get_prop node ''children'') then False
        else list_ex conversion_fails_reached (forEach_items (get_prop node ''children''))
      else False)"
  by pat_completeness auto
termination
proof (relation "measure size")
  show "wf (measure size)" by simp
next
  fix node x
  assume "isObject node" and "x \<in> set (forEach_items (get_prop node ''children''))"
  then have "size x < size node"
    using size_forEach_items [of x "get_prop node ''children''"]
      size_prop [of node "''children''"]
    by simp
  then show "(x, node) \<in> measure size" by simp
qed

declare conversion_fails_reached.simps [simp del]

text \<open>A string put in front of the string a call returns; an error stays as it is.\<close>

definition prepend :: "string \<Rightarrow> error + string \<Rightarrow> error + string" where
  "prepend xml r = (case r of Inl e \<Rightarrow> Inl e | Inr s \<Rightarrow> Inr (xml @ s))"

section \<open>The escape function\<close>

lemma replace_all_Nil: "replace_all c r [] = []"
  by (simp add: replace_all_def)

lemma replace_all_Cons:
  "replace_all c r (x # s) = (if x = c then r else [x]) @ replace_all c r s"
  by (simp add: replace_all_def)

lemma replace_all_append: "replace_all c r (s @ t) = replace_all c r s @ replace_all c r t"
  by (simp add: replace_all_def)

text \<open>The five passes together replace each character of the input once.\<close>

lemma priv_escapeString_JStr:
  "priv_escapeString (JStr s) = Inr (JStr (concat (map escape_char s)))"
proof -
  have "replace_all (CHR ''>'') ''&gt;'' (replace_all (CHR ''<'') ''&lt;''
          (replace_all (CHR 0x27) ''&apos;'' (replace_all (CHR 0x22) ''&quot;''
          (replace_all (CHR ''&'') ''&amp;'' s)))) = concat (map escape_char s)"
    by (induction s)
      (simp_all add: escape_char_def replace_all_Cons replace_all_append replace_all_Nil)
  then show ?thesis
    by (simp add: priv_escapeString_def isNil_def)
qed

lemma priv_escapeString_nil: "isNil v \<Longrightarrow> priv_escapeString v = Inr v"
  by (simp add: priv_escapeString_def)

lemma escaped_text_JStr: "escaped_text (JStr s) = Inr (concat (map escape_char s))"
  by (simp add: escaped_text_def priv_escapeString_JStr)

lemma escaped_text_nil: "isNil v \<Longrightarrow> escaped_text v = ToString v"
  by (simp add: escaped_text_def priv_escapeString_nil)

text \<open>Only a plain object with an own \<^verbatim>\<open>toString\<close> makes a conversion throw.\<close>

lemma collect_error: "collect f xs = Inl e \<Longrightarrow> \<exists>x \<in> set xs. f x = Inl e"
  by (induction xs) (auto split: sum.splits)

lemma ToString_error: "ToString v = Inl e \<Longrightarrow> e = TypeError"
proof (induction v arbitrary: e rule: ToString.induct)
  case (6 xs)
  from "6.prems" have "collect (\<lambda>x. if isNil x then Inr [] else ToString x) xs = Inl e"
    by (simp split: sum.splits)
  then obtain x where "x \<in> set xs" and "(if isNil x then Inr [] else ToString x) = Inl e"
    by (auto dest: collect_error)
  then show ?case
    using "6.IH" [of x e] by (auto split: if_splits)
qed (auto split: if_splits)

lemma ToString_primitive: "\<not> isObject v \<Longrightarrow> \<exists>s. ToString v = Inr s"
  by (cases v) simp_all

lemma escaped_text_cases:
  "escaped_text v = (if isNil v then ToString v
     else (case ToString v of Inl e \<Rightarrow> Inl e | Inr s \<Rightarrow> Inr (concat (map escape_char s))))"
proof (cases "isNil v")
  case True
  then show ?thesis by (simp add: escaped_text_nil)
next
  case False
  show ?thesis
  proof (cases "ToString v")
    case (Inl e)
    with False show ?thesis
      by (simp add: escaped_text_def priv_escapeString_def)
  next
    case (Inr s)
    have "priv_escapeString (JStr s) = Inr (JStr (concat (map escape_char s)))"
      by (rule priv_escapeString_JStr)
    with False Inr show ?thesis
      by (simp add: escaped_text_def priv_escapeString_def isNil_def)
  qed
qed

lemma escaped_text_error: "escaped_text v = Inl e \<Longrightarrow> e = TypeError"
  by (auto simp: escaped_text_cases split: if_splits sum.splits dest: ToString_error)

lemma escaped_text_leaf: "\<not> isObject v \<Longrightarrow> \<exists>s. escaped_text v = Inr s"
  using ToString_primitive [of v] by (auto simp: escaped_text_cases)

lemma unescape_escape_char: "xml_unescape (escape_char c @ t) = c # xml_unescape t"
  by (simp add: escape_char_def entity_table_def)

lemma unescape_escape: "xml_unescape (concat (map escape_char s)) = s"
  by (induction s) (simp_all add: unescape_escape_char)

lemma escape_unspecial: "\<not> list_ex special s \<Longrightarrow> concat (map escape_char s) = s"
  by (induction s) (auto simp: special_def escape_char_def)

lemma escape_length: "length s \<le> length (concat (map escape_char s))"
  by (induction s) (auto simp: escape_char_def)

lemma escape_longer: "list_ex special s \<Longrightarrow> length s < length (concat (map escape_char s))"
proof (induction s)
  case Nil
  then show ?case by simp
next
  case (Cons c s)
  show ?case
  proof (cases "special c")
    case True
    then have "1 < length (escape_char c)"
      by (auto simp: special_def escape_char_def)
    with escape_length [of s] show ?thesis by simp
  next
    case False
    with Cons show ?thesis by (auto simp: escape_char_def special_def)
  qed
qed

lemma escape_keeps_special:
  "list_ex special s \<Longrightarrow> list_ex special (concat (map escape_char s))"
  by (induction s) (auto simp: special_def escape_char_def)

text \<open>
  C4. For every string, the escape function (the five replacements, \<^verbatim>\<open>&\<close> first, each
  over the whole string) returns a string, and XML-unescaping it gives the input back.
\<close>

theorem escape_roundtrip:
  "\<exists>t. priv_escapeString (JStr s) = Inr (JStr t) \<and> escaped_text (JStr s) = Inr t
     \<and> xml_unescape t = s"
  by (simp add: priv_escapeString_JStr escaped_text_JStr unescape_escape)

text \<open>
  C7, as the claim states it, fails: escaping \<^verbatim>\<open>&\<close> twice gives \<^verbatim>\<open>&amp;amp;\<close>, escaping it
  once gives \<^verbatim>\<open>&amp;\<close>.
\<close>

theorem escape_twice_counterexample:
  "priv_escapeString (JStr ''&'') = Inr (JStr ''&amp;'')
   \<and> escape_twice (JStr ''&'') = Inr (JStr ''&amp;amp;'')
   \<and> escape_twice (JStr ''&'') \<noteq> priv_escapeString (JStr ''&'')"
  by (simp add: escape_twice_def priv_escapeString_JStr escape_char_def)

text \<open>
  C7, amended. One application of the escape function escapes no character twice: with
  \<^verbatim>\<open>&\<close> replaced first, the result is the input with each character replaced once by its
  entity. A second application changes the result exactly when the value holds one of
  the five special characters, so the function is idempotent on the other values only.
\<close>

theorem escape_once_charwise:
  "priv_escapeString (JStr s) = Inr (JStr (concat (map escape_char s)))
   \<and> (escape_twice (JStr s) = priv_escapeString (JStr s)) = (\<not> list_ex special s)"
proof (cases "list_ex special s")
  case True
  then have "list_ex special (concat (map escape_char s))"
    by (rule escape_keeps_special)
  then have "length (concat (map escape_char s))
      < length (concat (map escape_char (concat (map escape_char s))))"
    by (rule escape_longer)
  then have "concat (map escape_char (concat (map escape_char s))) \<noteq> concat (map escape_char s)"
    by auto
  with True show ?thesis
    by (simp add: escape_twice_def priv_escapeString_JStr)
next
  case False
  then have "concat (map escape_char s) = s"
    by (rule escape_unspecial)
  with False show ?thesis
    by (simp add: escape_twice_def priv_escapeString_JStr)
qed

section \<open>The traversal\<close>

lemma prepend_Inl: "prepend xml (Inl e) = Inl e"
  by (simp add: prepend_def)

lemma prepend_Inr: "prepend xml (Inr s) = Inr (xml @ s)"
  by (simp add: prepend_def)

lemma prepend_prepend: "prepend xml (prepend s r) = prepend (xml @ s) r"
  by (cases r) (simp_all add: prepend_def)

text \<open>The attribute loop appends to the string it is given.\<close>

lemma add_attribute_prefix: "add_attribute xml kv = prepend xml (add_attribute [] kv)"
  by (cases "escaped_text (snd kv)") (simp_all add: add_attribute_def prepend_def)

lemma forOwn_acc_prefix:
  "forOwn_acc add_attribute xml es = prepend xml (forOwn_acc add_attribute [] es)"
proof (induction es arbitrary: xml)
  case Nil
  then show ?case by (simp add: prepend_Inr)
next
  case (Cons e es)
  show ?case
  proof (cases "add_attribute [] e")
    case (Inl err)
    then have "add_attribute xml e = Inl err"
      using add_attribute_prefix [of xml e] by (simp add: prepend_Inl)
    with Inl show ?thesis by (simp add: prepend_Inl)
  next
    case (Inr s)
    then have "add_attribute xml e = Inr (xml @ s)"
      using add_attribute_prefix [of xml e] by (simp add: prepend_Inr)
    with Inr show ?thesis
      by (simp add: Cons.IH [of "xml @ s"] Cons.IH [of s] prepend_prepend)
  qed
qed

lemma add_attributes_prefix: "add_attributes a xml = prepend xml (add_attributes a [])"
  unfolding add_attributes_def by (rule forOwn_acc_prefix)

lemma forOwn_acc_append:
  "forOwn_acc f xml (rs @ ts)
     = (case forOwn_acc f xml rs of Inl e \<Rightarrow> Inl e | Inr a \<Rightarrow> forOwn_acc f a ts)"
  by (induction rs arbitrary: xml) (auto split: sum.splits)

lemma forOwn_acc_fails:
  "isl (forOwn_acc add_attribute xml es) = list_ex (\<lambda>kv. isl (escaped_text (snd kv))) es"
proof (induction es arbitrary: xml)
  case Nil
  then show ?case by simp
next
  case (Cons e es)
  then show ?case
    by (cases "escaped_text (snd e)") (simp_all add: add_attribute_def)
qed

lemma forOwn_acc_error: "forOwn_acc add_attribute xml es = Inl e \<Longrightarrow> e = TypeError"
proof (induction es arbitrary: xml)
  case Nil
  then show ?case by simp
next
  case (Cons kv es)
  then show ?case
    by (cases "escaped_text (snd kv)")
      (auto simp: add_attribute_def dest: escaped_text_error)
qed

lemma add_attributes_error: "add_attributes a xml = Inl e \<Longrightarrow> e = TypeError"
  unfolding add_attributes_def by (rule forOwn_acc_error)

lemma unconvertible_iff:
  "unconvertible node
     = (isl (ToString (get_prop node ''name''))
        \<or> isl (add_attributes (get_prop node ''attributes'') []))"
  by (simp add: unconvertible_def add_attributes_def forOwn_acc_fails)

text \<open>The paths through \<^verbatim>\<open>_build\<close>.\<close>

lemma priv_build_text:
  "\<not> isObject node \<Longrightarrow>
     priv_build b node xml = (flatten_probe b xml, prepend xml (escaped_text node))"
  by (cases "escaped_text node") (simp_all add: priv_build.simps prepend_def)

lemma priv_build_unnamed:
  "isObject node \<Longrightarrow> \<not> truthy (get_prop node ''name'') \<Longrightarrow>
     priv_build b node xml = (flatten_probe b xml, Inl (Error ''XML node does not have name''))"
  by (simp add: priv_build.simps)

lemma priv_build_name_throws:
  "isObject node \<Longrightarrow> truthy (get_prop node ''name'') \<Longrightarrow>
   ToString (get_prop node ''name'') = Inl e \<Longrightarrow>
     priv_build b node xml = (flatten_probe b xml, Inl e)"
  by (simp add: priv_build.simps [of b node xml])

lemma priv_build_attribute_throws:
  "isObject node \<Longrightarrow> truthy (get_prop node ''name'') \<Longrightarrow>
   ToString (get_prop node ''name'') = Inr n \<Longrightarrow>
   add_attributes (get_prop node ''attributes'') [] = Inl e \<Longrightarrow>
     priv_build b node xml = (flatten_probe b xml, Inl e)"
  by (simp add: priv_build.simps [of b node xml] add_attributes_prefix [of _ "xml @ _"]
      prepend_Inl)

lemma priv_build_selfclosed:
  "isObject node \<Longrightarrow> truthy (get_prop node ''name'') \<Longrightarrow>
   ToString (get_prop node ''name'') = Inr n \<Longrightarrow>
   add_attributes (get_prop node ''attributes'') [] = Inr a \<Longrightarrow>
   isEmpty (get_prop node ''children'') \<Longrightarrow>
     priv_build b node xml = (flatten_probe b xml, Inr (xml @ ''<'' @ n @ a @ ''/>''))"
  by (simp add: priv_build.simps [of b node xml] add_attributes_prefix [of _ "xml @ _"]
      prepend_Inr)

lemma priv_build_children:
  "isObject node \<Longrightarrow> truthy (get_prop node ''name'') \<Longrightarrow>
   ToString (get_prop node ''name'') = Inr n \<Longrightarrow>
   add_attributes (get_prop node ''attributes'') [] = Inr a \<Longrightarrow>
   \<not> isEmpty (get_prop node ''children'') \<Longrightarrow>
     priv_build b node xml =
       (case forEach_acc priv_build (flatten_probe b xml)
               (forEach_items (get_prop node ''children'')) (xml @ ''<'' @ n @ a @ ''>'') of
          (b2, Inl e) \<Rightarrow> (b2, Inl e)
        | (b2, Inr xml3) \<Rightarrow> (b2, Inr (xml3 @ ''</'' @ n @ ''>'')))"
  by (simp add: priv_build.simps [of b node xml] add_attributes_prefix [of _ "xml @ _"]
      prepend_Inr split: prod.splits sum.splits)

text \<open>
  A call appends to the string it is given, and neither what it appends nor whether it
  throws depends on that string or on the instance state.
\<close>

lemma forEach_acc_prepend:
  assumes "\<And>x s m s'. x \<in> set xs \<Longrightarrow> snd (f s x m) = prepend m (snd (f s' x []))"
  shows "snd (forEach_acc f b xs xml) = prepend xml (snd (forEach_acc f b' xs []))"
  using assms
proof (induction xs arbitrary: b b' xml)
  case Nil
  then show ?case by (simp add: prepend_Inr)
next
  case (Cons x xs)
  obtain b1 r1 where f1: "f b x xml = (b1, r1)" by (cases "f b x xml")
  obtain b2 r2 where f2: "f b' x [] = (b2, r2)" by (cases "f b' x []")
  have r1: "r1 = prepend xml r2"
    using Cons.prems [of x b xml b'] f1 f2 by simp
  show ?case
  proof (cases r2)
    case (Inl e)
    with r1 f1 f2 show ?thesis by (simp add: prepend_Inl)
  next
    case (Inr s)
    have rest: "\<And>c m. snd (forEach_acc f c xs m) = prepend m (snd (forEach_acc f b2 xs []))"
      by (rule Cons.IH) (simp add: Cons.prems)
    from Inr r1 f1 f2 show ?thesis
      by (simp add: rest [of b1 "xml @ s"] rest [of b2 s] prepend_prepend prepend_Inr)
  qed
qed

lemma priv_build_prepend:
  "snd (priv_build b node xml) = prepend xml (snd (priv_build b' node []))"
proof (induction b node xml arbitrary: b' rule: priv_build.induct)
  case (1 b node xml)
  show ?case
  proof (cases "isObject node")
    case False
    then show ?thesis by (simp add: priv_build_text prepend_prepend)
  next
    case obj: True
    show ?thesis
    proof (cases "truthy (get_prop node ''name'')")
      case False
      with obj show ?thesis by (simp add: priv_build_unnamed prepend_Inl)
    next
      case named: True
      show ?thesis
      proof (cases "ToString (get_prop node ''name'')")
        case (Inl e)
        with obj named show ?thesis by (simp add: priv_build_name_throws prepend_Inl)
      next
        case name: (Inr n)
        show ?thesis
        proof (cases "add_attributes (get_prop node ''attributes'') []")
          case (Inl e)
          with obj named name show ?thesis
            by (simp add: priv_build_attribute_throws prepend_Inl)
        next
          case attrs: (Inr a)
          have attrs': "add_attributes (get_prop node ''attributes'') (xml @ ''<'' @ n)
              = Inr ((xml @ ''<'' @ n) @ a)"
            using attrs add_attributes_prefix [of "get_prop node ''attributes''" "xml @ ''<'' @ n"]
            by (simp add: prepend_Inr)
          show ?thesis
          proof (cases "isEmpty (get_prop node ''children'')")
            case True
            with obj named name attrs show ?thesis
              by (simp add: priv_build_selfclosed prepend_Inr)
          next
            case False
            let ?items = "forEach_items (get_prop node ''children'')"
            let ?open = "''<'' @ n @ a @ ''>''"
            have step: "\<And>x s m s'. x \<in> set ?items \<Longrightarrow>
                snd (priv_build s x m) = prepend m (snd (priv_build s' x []))"
              using "1.IH" [OF refl obj _ name attrs' False] named by simp
            have loop: "\<And>c m c'. snd (forEach_acc priv_build c ?items m)
                = prepend m (snd (forEach_acc priv_build c' ?items []))"
              by (rule forEach_acc_prepend) (rule step)
            have l1: "snd (forEach_acc priv_build (flatten_probe b xml) ?items (xml @ ?open))
               = prepend (xml @ ?open) (snd (forEach_acc priv_build b' ?items []))"
              by (rule loop)
            have l2: "snd (forEach_acc priv_build (flatten_probe b' []) ?items ?open)
               = prepend ?open (snd (forEach_acc priv_build b' ?items []))"
              by (rule loop)
            show ?thesis
              using l1 l2 obj named name attrs False
              by (cases "snd (forEach_acc priv_build b' ?items [])")
                 (auto simp add: priv_build_children prepend_Inl prepend_Inr
                    split: prod.splits sum.splits)
          qed
        qed
      qed
    qed
  qed
qed

lemma priv_build_any_state: "snd (priv_build b node xml) = snd (priv_build b' node xml)"
  using priv_build_prepend [of b node xml b'] priv_build_prepend [of b' node xml b']
  by simp

lemma priv_build_appends:
  "snd (priv_build b node xml) = Inr out \<Longrightarrow>
     \<exists>r. out = xml @ r \<and> (\<forall>b' xml'. snd (priv_build b' node xml') = Inr (xml' @ r))"
proof -
  assume ok: "snd (priv_build b node xml) = Inr out"
  then obtain r where r: "snd (priv_build b node []) = Inr r" and out: "out = xml @ r"
    using priv_build_prepend [of b node xml b]
    by (cases "snd (priv_build b node [])") (auto simp: prepend_Inl prepend_Inr)
  have "\<forall>b' xml'. snd (priv_build b' node xml') = Inr (xml' @ r)"
    using priv_build_prepend [of _ node _ b] r by (simp add: prepend_Inr)
  with out show ?thesis by blast
qed

text \<open>The children loop returns exactly when every child renders, with the renderings in order.\<close>

lemma forEach_acc_renders:
  assumes "\<And>x s m s'. x \<in> set xs \<Longrightarrow> snd (f s x m) = prepend m (snd (f s' x []))"
  shows "(snd (forEach_acc f b xs xml) = Inr out)
     = (\<exists>rs. list_all2 (\<lambda>x r. \<forall>s m. snd (f s x m) = Inr (m @ r)) xs rs \<and> out = xml @ concat rs)"
  using assms
proof (induction xs arbitrary: b xml out)
  case Nil
  then show ?case by auto
next
  case (Cons x xs)
  obtain b1 r1 where f1: "f b x xml = (b1, r1)" by (cases "f b x xml")
  have indep: "\<And>s m. snd (f s x m) = prepend m (snd (f b x []))"
    by (rule Cons.prems) simp
  have IH: "\<And>c m o'. (snd (forEach_acc f c xs m) = Inr o')
     = (\<exists>rs. list_all2 (\<lambda>x r. \<forall>s m. snd (f s x m) = Inr (m @ r)) xs rs \<and> o' = m @ concat rs)"
    by (rule Cons.IH) (simp add: Cons.prems)
  show ?case
  proof (cases "snd (f b x [])")
    case (Inl e)
    have fails: "snd (f s x m) = Inl e" for s m
      unfolding indep [of s m] Inl by (rule prepend_Inl)
    from f1 fails [of b xml] have "snd (forEach_acc f b (x # xs) xml) = Inl e"
      by simp
    moreover have "\<not> (\<exists>rs. list_all2 (\<lambda>x r. \<forall>s m. snd (f s x m) = Inr (m @ r)) (x # xs) rs
           \<and> out = xml @ concat rs)"
    proof
      assume "\<exists>rs. list_all2 (\<lambda>x r. \<forall>s m. snd (f s x m) = Inr (m @ r)) (x # xs) rs
           \<and> out = xml @ concat rs"
      then obtain r' where "\<forall>s m. snd (f s x m) = Inr (m @ r')"
        unfolding list_all2_Cons1 by blast
      with fails [of b xml] show False by simp
    qed
    ultimately show ?thesis by simp
  next
    case (Inr r)
    have all: "snd (f s x m) = Inr (m @ r)" for s m
      unfolding indep [of s m] Inr by (rule prepend_Inr)
    with f1 have r1: "r1 = Inr (xml @ r)"
      by (metis snd_conv)
    have "(snd (forEach_acc f b (x # xs) xml) = Inr out)
        = (snd (forEach_acc f b1 xs (xml @ r)) = Inr out)"
      using f1 r1 by simp
    also have "\<dots> = (\<exists>rs. list_all2 (\<lambda>x r. \<forall>s m. snd (f s x m) = Inr (m @ r)) xs rs
           \<and> out = (xml @ r) @ concat rs)"
      by (rule IH)
    also have "\<dots> = (\<exists>rs. list_all2 (\<lambda>x r. \<forall>s m. snd (f s x m) = Inr (m @ r)) (x # xs) rs
           \<and> out = xml @ concat rs)"
    proof
      assume "\<exists>rs. list_all2 (\<lambda>x r. \<forall>s m. snd (f s x m) = Inr (m @ r)) xs rs
           \<and> out = (xml @ r) @ concat rs"
      then obtain rs where "list_all2 (\<lambda>x r. \<forall>s m. snd (f s x m) = Inr (m @ r)) xs rs"
        and "out = (xml @ r) @ concat rs" by blast
      with all have "list_all2 (\<lambda>x r. \<forall>s m. snd (f s x m) = Inr (m @ r)) (x # xs) (r # rs)
          \<and> out = xml @ concat (r # rs)"
        by simp
      then show "\<exists>rs. list_all2 (\<lambda>x r. \<forall>s m. snd (f s x m) = Inr (m @ r)) (x # xs) rs
           \<and> out = xml @ concat rs" by blast
    next
      assume "\<exists>rs. list_all2 (\<lambda>x r. \<forall>s m. snd (f s x m) = Inr (m @ r)) (x # xs) rs
           \<and> out = xml @ concat rs"
      then obtain r' rs where r': "\<forall>s m. snd (f s x m) = Inr (m @ r')"
        and rs: "list_all2 (\<lambda>x r. \<forall>s m. snd (f s x m) = Inr (m @ r)) xs rs"
        and out: "out = xml @ concat (r' # rs)"
        unfolding list_all2_Cons1 by blast
      from r' all [of b "[]"] have "r' = r" by simp
      with rs out show "\<exists>rs. list_all2 (\<lambda>x r. \<forall>s m. snd (f s x m) = Inr (m @ r)) xs rs
           \<and> out = (xml @ r) @ concat rs"
        by auto
    qed
    finally show ?thesis .
  qed
qed

lemma priv_build_children_renders:
  assumes "isObject node" and "truthy (get_prop node ''name'')"
    and "ToString (get_prop node ''name'') = Inr n"
    and "add_attributes (get_prop node ''attributes'') [] = Inr a"
    and "\<not> isEmpty (get_prop node ''children'')"
  shows "(snd (priv_build b node xml) = Inr out)
     = (\<exists>rs. list_all2 (\<lambda>child r. \<forall>b' xml'. snd (priv_build b' child xml') = Inr (xml' @ r))
               (forEach_items (get_prop node ''children'')) rs
          \<and> out = xml @ ''<'' @ n @ a @ ''>'' @ concat rs @ ''</'' @ n @ ''>'')"
proof -
  let ?items = "forEach_items (get_prop node ''children'')"
  let ?open = "xml @ ''<'' @ n @ a @ ''>''"
  let ?close = "''</'' @ n @ ''>''"
  let ?R = "\<lambda>child r. \<forall>b' xml'. snd (priv_build b' child xml') = Inr (xml' @ r)"
  have loop: "\<And>o'. (snd (forEach_acc priv_build (flatten_probe b xml) ?items ?open) = Inr o')
      = (\<exists>rs. list_all2 ?R ?items rs \<and> o' = ?open @ concat rs)"
    by (rule forEach_acc_renders) (rule priv_build_prepend)
  have "(snd (priv_build b node xml) = Inr out)
      = (\<exists>o'. snd (forEach_acc priv_build (flatten_probe b xml) ?items ?open) = Inr o'
            \<and> out = o' @ ?close)"
    using assms by (auto simp: priv_build_children split: prod.splits sum.splits)
  also have "\<dots> = (\<exists>rs. list_all2 ?R ?items rs \<and> out = (?open @ concat rs) @ ?close)"
    unfolding loop by blast
  finally show ?thesis by simp
qed

text \<open>When a call throws, and what it throws.\<close>

lemma fails_children:
  assumes "\<And>x s m. x \<in> set xs \<Longrightarrow> isl (snd (f s x m)) = P x"
  shows "isl (snd (forEach_acc f b xs xml)) = list_ex P xs"
  using assms
proof (induction xs arbitrary: b xml)
  case Nil
  then show ?case by simp
next
  case (Cons x xs)
  obtain b1 r1 where f1: "f b x xml = (b1, r1)" by (cases "f b x xml")
  have px: "isl r1 = P x"
    using Cons.prems [of x b xml] f1 by simp
  have IH: "\<And>c m. isl (snd (forEach_acc f c xs m)) = list_ex P xs"
    by (rule Cons.IH) (simp add: Cons.prems)
  show ?case
    using f1 px IH by (cases r1) simp_all
qed

lemma priv_build_fails_iff:
  "isl (snd (priv_build b node xml))
     = (unnamed_element_reached node \<or> conversion_fails_reached node)"
proof (induction b node xml rule: priv_build.induct)
  case (1 b node xml)
  note defs = unnamed_element_reached.simps [of node] conversion_fails_reached.simps [of node]
  show ?case
  proof (cases "isObject node")
    case False
    then obtain s where "escaped_text node = Inr s"
      using escaped_text_leaf by blast
    with False show ?thesis
      by (simp add: priv_build_text defs prepend_Inr)
  next
    case obj: True
    show ?thesis
    proof (cases "truthy (get_prop node ''name'')")
      case False
      with obj show ?thesis
        by (simp add: priv_build_unnamed defs)
    next
      case named: True
      show ?thesis
      proof (cases "ToString (get_prop node ''name'')")
        case (Inl e)
        with obj named show ?thesis
          by (simp add: priv_build_name_throws defs unconvertible_iff)
      next
        case name: (Inr n)
        show ?thesis
        proof (cases "add_attributes (get_prop node ''attributes'') []")
          case (Inl e)
          with obj named name show ?thesis
            by (simp add: priv_build_attribute_throws defs unconvertible_iff)
        next
          case attrs: (Inr a)
          have attrs': "add_attributes (get_prop node ''attributes'') (xml @ ''<'' @ n)
              = Inr ((xml @ ''<'' @ n) @ a)"
            using attrs add_attributes_prefix [of "get_prop node ''attributes''" "xml @ ''<'' @ n"]
            by (simp add: prepend_Inr)
          have conv: "\<not> unconvertible node"
            using name attrs by (simp add: unconvertible_iff)
          show ?thesis
          proof (cases "isEmpty (get_prop node ''children'')")
            case True
            with obj named name attrs conv show ?thesis
              by (simp add: priv_build_selfclosed defs)
          next
            case False
            let ?items = "forEach_items (get_prop node ''children'')"
            let ?bad = "\<lambda>x. unnamed_element_reached x \<or> conversion_fails_reached x"
            have step: "\<And>x s m. x \<in> set ?items \<Longrightarrow> isl (snd (priv_build s x m)) = ?bad x"
              using "1.IH" [OF refl obj _ name attrs' False] named by simp
            have loop: "\<And>c m. isl (snd (forEach_acc priv_build c ?items m)) = list_ex ?bad ?items"
              by (rule fails_children) (rule step)
            have "isl (snd (priv_build b node xml))
                = isl (snd (forEach_acc priv_build (flatten_probe b xml) ?items
                    (xml @ ''<'' @ n @ a @ ''>'')))"
              using obj named name attrs False
              by (simp add: priv_build_children split: prod.splits sum.splits)
            also have "\<dots> = list_ex ?bad ?items"
              by (rule loop)
            also have "\<dots> = (list_ex unnamed_element_reached ?items
                \<or> list_ex conversion_fails_reached ?items)"
              by (auto simp: list_ex_iff)
            also have "\<dots> = (unnamed_element_reached node \<or> conversion_fails_reached node)"
              using obj named conv False by (simp add: defs)
            finally show ?thesis .
          qed
        qed
      qed
    qed
  qed
qed

lemma error_in_child:
  "snd (forEach_acc f b xs xml) = Inl e \<Longrightarrow> \<exists>x \<in> set xs. \<exists>s m. snd (f s x m) = Inl e"
proof (induction xs arbitrary: b xml)
  case Nil
  then show ?case by simp
next
  case (Cons x xs)
  obtain b1 r1 where f1: "f b x xml = (b1, r1)" by (cases "f b x xml")
  show ?case
  proof (cases r1)
    case (Inl e')
    with f1 Cons.prems have "snd (f b x xml) = Inl e" by simp
    then show ?thesis by auto
  next
    case (Inr xml')
    with f1 Cons.prems have "snd (forEach_acc f b1 xs xml') = Inl e" by simp
    then have "\<exists>y \<in> set xs. \<exists>s m. snd (f s y m) = Inl e" by (rule Cons.IH)
    then show ?thesis by auto
  qed
qed

lemma priv_build_error_cause:
  "snd (priv_build b node xml) = Inl e \<Longrightarrow>
     (e = Error ''XML node does not have name'' \<and> unnamed_element_reached node)
     \<or> (e = TypeError \<and> conversion_fails_reached node)"
proof (induction b node xml arbitrary: e rule: priv_build.induct)
  case (1 b node xml)
  note defs = unnamed_element_reached.simps [of node] conversion_fails_reached.simps [of node]
  show ?case
  proof (cases "isObject node")
    case False
    then obtain s where "escaped_text node = Inr s"
      using escaped_text_leaf by blast
    with False "1.prems" show ?thesis
      by (simp add: priv_build_text prepend_Inr)
  next
    case obj: True
    show ?thesis
    proof (cases "truthy (get_prop node ''name'')")
      case False
      with obj "1.prems" show ?thesis
        by (simp add: priv_build_unnamed defs)
    next
      case named: True
      show ?thesis
      proof (cases "ToString (get_prop node ''name'')")
        case (Inl e')
        then have "e' = TypeError" by (rule ToString_error)
        with Inl obj named "1.prems" show ?thesis
          by (simp add: priv_build_name_throws defs unconvertible_iff)
      next
        case name: (Inr n)
        show ?thesis
        proof (cases "add_attributes (get_prop node ''attributes'') []")
          case (Inl e')
          then have "e' = TypeError" by (rule add_attributes_error)
          with Inl obj named name "1.prems" show ?thesis
            by (simp add: priv_build_attribute_throws defs unconvertible_iff)
        next
          case attrs: (Inr a)
          have attrs': "add_attributes (get_prop node ''attributes'') (xml @ ''<'' @ n)
              = Inr ((xml @ ''<'' @ n) @ a)"
            using attrs add_attributes_prefix [of "get_prop node ''attributes''" "xml @ ''<'' @ n"]
            by (simp add: prepend_Inr)
          have conv: "\<not> unconvertible node"
            using name attrs by (simp add: unconvertible_iff)
          show ?thesis
          proof (cases "isEmpty (get_prop node ''children'')")
            case True
            with obj named name attrs "1.prems" show ?thesis
              by (simp add: priv_build_selfclosed)
          next
            case False
            let ?items = "forEach_items (get_prop node ''children'')"
            from obj named name attrs False "1.prems" have
              "snd (forEach_acc priv_build (flatten_probe b xml) ?items
                    (xml @ ''<'' @ n @ a @ ''>'')) = Inl e"
              by (auto simp: priv_build_children split: prod.splits sum.splits)
            then obtain x s m where x: "x \<in> set ?items" and "snd (priv_build s x m) = Inl e"
              by (blast dest: error_in_child)
            then have "(e = Error ''XML node does not have name'' \<and> unnamed_element_reached x)
                \<or> (e = TypeError \<and> conversion_fails_reached x)"
              using "1.IH" [OF refl obj _ name attrs' False x] named by simp
            with x have "(e = Error ''XML node does not have name''
                  \<and> list_ex unnamed_element_reached ?items)
                \<or> (e = TypeError \<and> list_ex conversion_fails_reached ?items)"
              by (auto simp: list_ex_iff)
            with obj named conv False show ?thesis
              by (simp add: defs)
          qed
        qed
      qed
    qed
  qed
qed

section \<open>The claims about \<^verbatim>\<open>build\<close>\<close>

lemmas node_simps =
  get_prop_def lookup_def add_attributes_def add_attribute_def forOwn_entries_def
  forEach_items_def chars_of_def escaped_text_JStr escape_char_def

text \<open>
  C1. When \<^verbatim>\<open>build\<close> returns, the string is the declaration followed at once by the
  rendering of the root: the string \<^verbatim>\<open>_build\<close> appends for that node, whatever string and
  instance state it starts from. On \<^verbatim>\<open>{name: "root"}\<close> the result is the declaration
  followed by \<^verbatim>\<open><root/>\<close>.
\<close>

theorem build_declaration_first:
  "(snd (build b node) = Inr out \<longrightarrow>
      (\<exists>r. out = xml_declaration @ r
         \<and> (\<forall>b' xml. snd (priv_build b' node xml) = Inr (xml @ r))))
   \<and> snd (build b (JObj [(''name'', JStr ''root'')]))
       = Inr ''<?xml version=\"1.0\" encoding=\"UTF-8\" standalone=\"yes\"?><root/>''"
proof
  show "snd (build b node) = Inr out \<longrightarrow>
      (\<exists>r. out = xml_declaration @ r
         \<and> (\<forall>b' xml. snd (priv_build b' node xml) = Inr (xml @ r)))"
    unfolding build_def by (rule impI) (rule priv_build_appends)
  show "snd (build b (JObj [(''name'', JStr ''root'')]))
       = Inr ''<?xml version=\"1.0\" encoding=\"UTF-8\" standalone=\"yes\"?><root/>''"
    by (simp add: build_def priv_build_selfclosed [where n = "''root''" and a = "[]"]
        node_simps xml_declaration_def)
qed

theorem build_declaration_first_witness:
  "snd (build \<lparr>fld_i = Unset, fld_c = JUndefined\<rparr>
          (JObj [(''name'', JStr ''p''), (''children'', JArr [JStr ''hello <b>''])]))
     = Inr (xml_declaration @ ''<p>hello &lt;b&gt;</p>'')
   \<and> (\<exists>r. xml_declaration @ ''<p>hello &lt;b&gt;</p>'' = xml_declaration @ r
         \<and> (\<forall>b' xml. snd (priv_build b'
               (JObj [(''name'', JStr ''p''), (''children'', JArr [JStr ''hello <b>''])]) xml)
             = Inr (xml @ r)))"
proof -
  let ?p = "JObj [(''name'', JStr ''p''), (''children'', JArr [JStr ''hello <b>''])]"
  let ?b = "\<lparr>fld_i = Unset, fld_c = JUndefined\<rparr>"
  have run: "snd (build ?b ?p) = Inr (xml_declaration @ ''<p>hello &lt;b&gt;</p>'')"
    by (simp add: build_def priv_build_children [where n = "''p''" and a = "[]"]
        priv_build_text prepend_Inr node_simps)
  with build_declaration_first [of ?b ?p "xml_declaration @ ''<p>hello &lt;b&gt;</p>''"]
  show ?thesis by blast
qed

text \<open>
  C2, as the claim states it, fails on the message: an element without a name makes
  \<^verbatim>\<open>build\<close> throw an error whose message is \<^verbatim>\<open>XML node does not have name\<close>.
\<close>

theorem missing_name_message_counterexample:
  "snd (build \<lparr>fld_i = Unset, fld_c = JUndefined\<rparr> (JObj []))
     = Inl (Error ''XML node does not have name'')
   \<and> snd (build \<lparr>fld_i = Unset, fld_c = JUndefined\<rparr> (JObj []))
     \<noteq> Inl (Error ''XML node missing name'')"
  by (simp add: build_def priv_build_unnamed node_simps)

text \<open>
  C2, amended. \<^verbatim>\<open>build\<close> returns a string exactly when the tree it traverses has no
  element node with a falsy \<^verbatim>\<open>name\<close> and no name or attribute value that cannot be
  converted to a string. When it throws, no string is returned, and the error is either
  the one with the message \<^verbatim>\<open>XML node does not have name\<close>, and then the tree has an
  element with a falsy name, or the \<^verbatim>\<open>TypeError\<close> of a failed conversion, and then the tree
  has such a name or attribute value. On a tree where every conversion succeeds, \<^verbatim>\<open>build\<close>
  throws the missing-name error exactly when the tree has an element with a falsy name.
\<close>

theorem missing_name_error:
  "((\<exists>out. snd (build b node) = Inr out)
      = (\<not> unnamed_element_reached node \<and> \<not> conversion_fails_reached node))
   \<and> (snd (build b node) = Inl e \<longrightarrow>
        (e = Error ''XML node does not have name'' \<and> unnamed_element_reached node)
        \<or> (e = TypeError \<and> conversion_fails_reached node))
   \<and> (\<not> conversion_fails_reached node \<longrightarrow>
        (snd (build b node) = Inl (Error ''XML node does not have name''))
          = unnamed_element_reached node)"
proof -
  let ?r = "snd (build b node)"
  have fails: "isl ?r = (unnamed_element_reached node \<or> conversion_fails_reached node)"
    unfolding build_def by (rule priv_build_fails_iff)
  have cause: "?r = Inl e' \<Longrightarrow>
        (e' = Error ''XML node does not have name'' \<and> unnamed_element_reached node)
        \<or> (e' = TypeError \<and> conversion_fails_reached node)" for e'
    unfolding build_def by (rule priv_build_error_cause)
  have returns: "(\<exists>out. ?r = Inr out)
      = (\<not> unnamed_element_reached node \<and> \<not> conversion_fails_reached node)"
    using fails by (cases ?r) simp_all
  have only: "(?r = Inl (Error ''XML node does not have name'')) = unnamed_element_reached node"
    if "\<not> conversion_fails_reached node"
  proof
    assume "?r = Inl (Error ''XML node does not have name'')"
    from cause [OF this] show "unnamed_element_reached node" by simp
  next
    assume "unnamed_element_reached node"
    with fails obtain e' where e': "?r = Inl e'" by (cases ?r) auto
    from cause [OF e'] that have "e' = Error ''XML node does not have name''" by simp
    with e' show "?r = Inl (Error ''XML node does not have name'')" by simp
  qed
  from returns cause [of e] only show ?thesis by blast
qed

theorem missing_name_error_witness:
  "snd (build \<lparr>fld_i = Unset, fld_c = JUndefined\<rparr>
         (JObj [(''name'', JStr ''a''), (''children'', JArr [JStr ''t'', JObj []])]))
     = Inl (Error ''XML node does not have name'')
   \<and> \<not> conversion_fails_reached
         (JObj [(''name'', JStr ''a''), (''children'', JArr [JStr ''t'', JObj []])])
   \<and> unnamed_element_reached
         (JObj [(''name'', JStr ''a''), (''children'', JArr [JStr ''t'', JObj []])])
   \<and> snd (build \<lparr>fld_i = Unset, fld_c = JUndefined\<rparr>
         (JObj [(''name'', JObj [(''toString'', JStr ''x'')])]))
     = Inl TypeError
   \<and> conversion_fails_reached (JObj [(''name'', JObj [(''toString'', JStr ''x'')])])"
proof -
  let ?b = "\<lparr>fld_i = Unset, fld_c = JUndefined\<rparr>"
  let ?a = "JObj [(''name'', JStr ''a''), (''children'', JArr [JStr ''t'', JObj []])]"
  let ?t = "JObj [(''name'', JObj [(''toString'', JStr ''x'')])]"
  have run_a: "snd (build ?b ?a) = Inl (Error ''XML node does not have name'')"
    by (simp add: build_def priv_build_children [where n = "''a''" and a = "[]"]
        priv_build_text priv_build_unnamed prepend_Inr node_simps)
  have conv_a: "\<not> conversion_fails_reached ?a"
    by (simp add: conversion_fails_reached.simps [of ?a]
        conversion_fails_reached.simps [of "JStr ''t''"]
        conversion_fails_reached.simps [of "JObj []"]
        unconvertible_def node_simps)
  have run_t: "snd (build ?b ?t) = Inl TypeError"
    by (simp add: build_def priv_build_name_throws [where e = TypeError] node_simps)
  from run_a conv_a missing_name_error [of ?b ?a "Error ''XML node does not have name''"]
  have "unnamed_element_reached ?a" by simp
  moreover from run_t missing_name_error [of ?b ?t TypeError]
  have "conversion_fails_reached ?t" by simp
  ultimately show ?thesis using run_a conv_a run_t by simp
qed

text \<open>
  C3. An element node with a truthy name, whose name and attribute values convert to
  strings, and with no children (\<^verbatim>\<open>_.isEmpty(node.children)\<close>: the property is absent or
  an empty sequence) renders as the self-closed tag \<^verbatim>\<open><name attributes/>\<close>. With children
  it returns exactly when every child renders, and the result is \<^verbatim>\<open><name attributes>\<close>,
  the renderings of the children in sequence order, and \<^verbatim>\<open></name>\<close>.
\<close>

theorem element_rendering:
  assumes "isObject node" and "truthy (get_prop node ''name'')"
    and "ToString (get_prop node ''name'') = Inr n"
    and "add_attributes (get_prop node ''attributes'') [] = Inr a"
  shows "(isEmpty (get_prop node ''children'') \<longrightarrow>
            snd (priv_build b node xml) = Inr (xml @ ''<'' @ n @ a @ ''/>''))
       \<and> (\<not> isEmpty (get_prop node ''children'') \<longrightarrow>
            (snd (priv_build b node xml) = Inr out)
              = (\<exists>rs. list_all2
                       (\<lambda>child r. \<forall>b' xml'. snd (priv_build b' child xml') = Inr (xml' @ r))
                       (forEach_items (get_prop node ''children'')) rs
                   \<and> out = xml @ ''<'' @ n @ a @ ''>'' @ concat rs @ ''</'' @ n @ ''>''))
       \<and> isEmpty JUndefined \<and> isEmpty (JArr cs) = (cs = []) \<and> forEach_items (JArr cs) = cs"
proof (intro conjI impI)
  assume "isEmpty (get_prop node ''children'')"
  with assms show "snd (priv_build b node xml) = Inr (xml @ ''<'' @ n @ a @ ''/>'')"
    by (simp add: priv_build_selfclosed)
next
  assume "\<not> isEmpty (get_prop node ''children'')"
  with assms show "(snd (priv_build b node xml) = Inr out)
      = (\<exists>rs. list_all2
               (\<lambda>child r. \<forall>b' xml'. snd (priv_build b' child xml') = Inr (xml' @ r))
               (forEach_items (get_prop node ''children'')) rs
           \<and> out = xml @ ''<'' @ n @ a @ ''>'' @ concat rs @ ''</'' @ n @ ''>'')"
    by (rule priv_build_children_renders)
qed (simp_all add: forEach_items_def)

theorem element_rendering_witness:
  "snd (priv_build \<lparr>fld_i = Count 0, fld_c = JUndefined\<rparr>
        (JObj [(''name'', JStr ''root''), (''attributes'', JObj [(''x'', JStr ''1&2'')])]) [])
     = Inr ''<root x=\"1&amp;2\"/>''
   \<and> snd (priv_build \<lparr>fld_i = Count 0, fld_c = JUndefined\<rparr>
        (JObj [(''name'', JStr ''root''),
               (''children'', JArr [JObj [(''name'', JStr ''child1'')], JStr ''a<b''])]) [])
     = Inr ''<root><child1/>a&lt;b</root>''
   \<and> (\<exists>rs. list_all2
            (\<lambda>child r. \<forall>b' xml'. snd (priv_build b' child xml') = Inr (xml' @ r))
            [JObj [(''name'', JStr ''child1'')], JStr ''a<b''] rs
        \<and> ''<root><child1/>a&lt;b</root>'' = ''<root>'' @ concat rs @ ''</root>'')"
proof -
  let ?b = "\<lparr>fld_i = Count 0, fld_c = JUndefined\<rparr>"
  let ?leaf = "JObj [(''name'', JStr ''root''), (''attributes'', JObj [(''x'', JStr ''1&2'')])]"
  let ?tree = "JObj [(''name'', JStr ''root''),
               (''children'', JArr [JObj [(''name'', JStr ''child1'')], JStr ''a<b''])]"
  have leaf: "snd (priv_build ?b ?leaf []) = Inr ''<root x=\"1&amp;2\"/>''"
    using element_rendering [of ?leaf "''root''" "'' x=\"1&amp;2\"''" ?b "[]"]
    by (simp add: node_simps)
  have run: "snd (priv_build ?b ?tree []) = Inr ''<root><child1/>a&lt;b</root>''"
    by (simp add: priv_build_children [where n = "''root''" and a = "[]"]
        priv_build_selfclosed [where n = "''child1''" and a = "[]"]
        priv_build_text prepend_Inr node_simps)
  from run element_rendering [of ?tree "''root''" "[]" ?b "[]" "''<root><child1/>a&lt;b</root>''"]
  have "\<exists>rs. list_all2
            (\<lambda>child r. \<forall>b' xml'. snd (priv_build b' child xml') = Inr (xml' @ r))
            [JObj [(''name'', JStr ''child1'')], JStr ''a<b''] rs
        \<and> ''<root><child1/>a&lt;b</root>'' = ''<root>'' @ concat rs @ ''</root>''"
    by (simp add: node_simps)
  with leaf run show ?thesis by blast
qed

text \<open>
  C5, as the claim states it, fails: a \<^verbatim>\<open>null\<close> text child puts the word \<^verbatim>\<open>null\<close> in the
  document.
\<close>

theorem nil_text_counterexample:
  "snd (build \<lparr>fld_i = Unset, fld_c = JUndefined\<rparr>
          (JObj [(''name'', JStr ''a''), (''children'', JArr [JNull])]))
     = Inr (xml_declaration @ ''<a>null</a>'')
   \<and> snd (build \<lparr>fld_i = Unset, fld_c = JUndefined\<rparr>
          (JObj [(''name'', JStr ''a''), (''children'', JArr [JNull])]))
     \<noteq> Inr (xml_declaration @ ''<a></a>'')"
  by (simp add: build_def priv_build_children [where n = "''a''" and a = "[]"]
      priv_build_text prepend_Inr node_simps escaped_text_nil isNil_def)

text \<open>
  C5, amended. The escape function returns a nil value as it is, with no escaping, and
  the concatenation that follows appends its string form: a \<^verbatim>\<open>null\<close> text node renders as
  the word \<^verbatim>\<open>null\<close>, an \<^verbatim>\<open>undefined\<close> one as the word \<^verbatim>\<open>undefined\<close>.
\<close>

theorem nil_text_string_form:
  "priv_escapeString JNull = Inr JNull
   \<and> priv_escapeString JUndefined = Inr JUndefined
   \<and> snd (priv_build b JNull xml) = Inr (xml @ ''null'')
   \<and> snd (priv_build b JUndefined xml) = Inr (xml @ ''undefined'')"
  by (simp add: priv_build_text prepend_Inr escaped_text_nil priv_escapeString_nil isNil_def)

text \<open>
  C6, as the claim states it, fails: an attribute whose value is \<^verbatim>\<open>null\<close> is written
  with the value \<^verbatim>\<open>null\<close>, not with an empty value.
\<close>

theorem nil_attribute_counterexample:
  "snd (build \<lparr>fld_i = Unset, fld_c = JUndefined\<rparr>
          (JObj [(''name'', JStr ''a''), (''attributes'', JObj [(''x'', JNull)])]))
     = Inr (xml_declaration @ ''<a x=\"null\"/>'')
   \<and> snd (build \<lparr>fld_i = Unset, fld_c = JUndefined\<rparr>
          (JObj [(''name'', JStr ''a''), (''attributes'', JObj [(''x'', JNull)])]))
     \<noteq> Inr (xml_declaration @ ''<a x=\"\"/>'')"
  by (simp add: build_def priv_build_selfclosed [where n = "''a''" and a = "'' x=\"null\"''"]
      node_simps escaped_text_nil isNil_def)

lemma add_attributes_split:
  assumes "add_attributes (JObj (ps @ (key, v) # qs)) [] = Inr attrs" and "isNil v"
  shows "\<exists>a t tail. add_attributes (JObj ps) [] = Inr a \<and> ToString v = Inr t
           \<and> (t = ''null'' \<or> t = ''undefined'')
           \<and> attrs = a @ '' '' @ key @ ''=\"'' @ t @ ''\"'' @ tail"
proof -
  from assms(2) obtain t where t: "ToString v = Inr t" "t = ''null'' \<or> t = ''undefined''"
    by (auto simp: isNil_def)
  with assms(2) have one: "add_attribute xml (key, v)
      = Inr (xml @ '' '' @ key @ ''=\"'' @ t @ ''\"'')" for xml
    by (simp add: add_attribute_def escaped_text_nil)
  from assms(1) have whole: "forOwn_acc add_attribute [] (ps @ (key, v) # qs) = Inr attrs"
    by (simp add: add_attributes_def forOwn_entries_def)
  then obtain a where a: "forOwn_acc add_attribute [] ps = Inr a"
    by (cases "forOwn_acc add_attribute [] ps") (simp_all add: forOwn_acc_append)
  with whole one have rest: "forOwn_acc add_attribute (a @ '' '' @ key @ ''=\"'' @ t @ ''\"'') qs
      = Inr attrs"
    by (simp add: forOwn_acc_append)
  then obtain tail where "attrs = (a @ '' '' @ key @ ''=\"'' @ t @ ''\"'') @ tail"
    using forOwn_acc_prefix [of "a @ '' '' @ key @ ''=\"'' @ t @ ''\"''" qs]
    by (cases "forOwn_acc add_attribute [] qs") (auto simp: prepend_Inl prepend_Inr)
  with a t show ?thesis
    by (auto simp: add_attributes_def forOwn_entries_def)
qed

text \<open>
  C6, amended. An attribute whose value is nil is still written, with its key kept, after
  the attributes before it; its value is the string form of the nil value: \<^verbatim>\<open>key="null"\<close>
  or \<^verbatim>\<open>key="undefined"\<close>.
\<close>

theorem nil_attribute_string_form:
  assumes "isObject node" and "truthy (get_prop node ''name'')"
    and "get_prop node ''attributes'' = JObj (ps @ (key, v) # qs)"
    and "isNil v"
    and "snd (priv_build b node xml) = Inr out"
  shows "\<exists>n a t rest. ToString (get_prop node ''name'') = Inr n
           \<and> add_attributes (JObj ps) [] = Inr a
           \<and> ToString v = Inr t \<and> (t = ''null'' \<or> t = ''undefined'')
           \<and> out = xml @ ''<'' @ n @ a @ '' '' @ key @ ''=\"'' @ t @ ''\"'' @ rest"
proof -
  obtain n where n: "ToString (get_prop node ''name'') = Inr n"
    using assms(1,2,5)
    by (cases "ToString (get_prop node ''name'')") (simp_all add: priv_build_name_throws)
  obtain attrs where attrs: "add_attributes (get_prop node ''attributes'') [] = Inr attrs"
    using assms(1,2,5) n
    by (cases "add_attributes (get_prop node ''attributes'') []")
      (simp_all add: priv_build_attribute_throws)
  from attrs assms(3,4) obtain a t tail where
    a: "add_attributes (JObj ps) [] = Inr a" and t: "ToString v = Inr t"
    and word: "t = ''null'' \<or> t = ''undefined''"
    and split: "attrs = a @ '' '' @ key @ ''=\"'' @ t @ ''\"'' @ tail"
    using add_attributes_split [of ps key v qs attrs] by auto
  have "\<exists>close. out = xml @ ''<'' @ n @ attrs @ close"
  proof (cases "isEmpty (get_prop node ''children'')")
    case True
    with assms(1,2,5) n attrs have "out = xml @ ''<'' @ n @ attrs @ ''/>''"
      by (simp add: priv_build_selfclosed)
    then show ?thesis ..
  next
    case False
    with assms(1,2,5) n attrs obtain rs where
      "out = xml @ ''<'' @ n @ attrs @ (''>'' @ concat rs @ ''</'' @ n @ ''>'')"
      by (auto simp: priv_build_children_renders)
    then show ?thesis ..
  qed
  then obtain close where "out = xml @ ''<'' @ n @ attrs @ close" ..
  then have "out = xml @ ''<'' @ n @ a @ '' '' @ key @ ''=\"'' @ t @ ''\"'' @ (tail @ close)"
    unfolding split by simp
  with n a t word show ?thesis by blast
qed

theorem nil_attribute_string_form_witness:
  "snd (priv_build \<lparr>fld_i = Count 0, fld_c = JUndefined\<rparr>
         (JObj [(''name'', JStr ''a''),
                (''attributes'', JObj [(''x'', JStr ''1''), (''y'', JUndefined)])]) [])
     = Inr ''<a x=\"1\" y=\"undefined\"/>''
   \<and> (\<exists>n a t rest. ToString (JStr ''a'') = Inr n
         \<and> add_attributes (JObj [(''x'', JStr ''1'')]) [] = Inr a
         \<and> ToString JUndefined = Inr t \<and> (t = ''null'' \<or> t = ''undefined'')
         \<and> ''<a x=\"1\" y=\"undefined\"/>'' = ''<'' @ n @ a @ '' y=\"'' @ t @ ''\"'' @ rest)"
proof -
  let ?b = "\<lparr>fld_i = Count 0, fld_c = JUndefined\<rparr>"
  let ?a = "JObj [(''name'', JStr ''a''),
                  (''attributes'', JObj [(''x'', JStr ''1''), (''y'', JUndefined)])]"
  have run: "snd (priv_build ?b ?a []) = Inr ''<a x=\"1\" y=\"undefined\"/>''"
    by (simp add: priv_build_selfclosed [where n = "''a''" and a = "'' x=\"1\" y=\"undefined\"''"]
        node_simps escaped_text_nil isNil_def)
  from run
    nil_attribute_string_form [of ?a "[(''x'', JStr ''1'')]" "''y''" JUndefined "[]" ?b "[]"
      "''<a x=\"1\" y=\"undefined\"/>''"]
  have "\<exists>n a t rest. ToString (JStr ''a'') = Inr n
         \<and> add_attributes (JObj [(''x'', JStr ''1'')]) [] = Inr a
         \<and> ToString JUndefined = Inr t \<and> (t = ''null'' \<or> t = ''undefined'')
         \<and> ''<a x=\"1\" y=\"undefined\"/>'' = ''<'' @ n @ a @ '' y=\"'' @ t @ ''\"'' @ rest"
    by (simp add: get_prop_def lookup_def isNil_def)
  with run show ?thesis by blast
qed

lemma priv_build_same_probe:
  "flatten_probe b xml = flatten_probe b' xml \<Longrightarrow> priv_build b node xml = priv_build b' node xml"
  by (simp add: priv_build.simps [of b node xml] priv_build.simps [of b' node xml])

text \<open>
  C8. What \<^verbatim>\<open>build\<close> returns or throws, and the state it leaves, do not depend on the
  state of the instance before the call: \<^verbatim>\<open>build\<close> sets the counter to 0 and runs \<^verbatim>\<open>_build\<close>
  on the declaration, and the string or error of a \<^verbatim>\<open>_build\<close> call is the same for every
  value of the counter and of the field the probe writes.
\<close>

theorem build_independent_of_instance:
  "build b1 node = build b2 node
   \<and> build b1 node = priv_build (b1\<lparr>fld_i := Count 0\<rparr>) node xml_declaration
   \<and> snd (priv_build b1 node xml) = snd (priv_build b2 node xml)"
proof (intro conjI)
  have "flatten_probe (b1\<lparr>fld_i := Count 0\<rparr>) xml_declaration
      = flatten_probe (b2\<lparr>fld_i := Count 0\<rparr>) xml_declaration"
    by (simp add: flatten_probe_def)
  then show "build b1 node = build b2 node"
    unfolding build_def by (rule priv_build_same_probe)
  show "build b1 node = priv_build (b1\<lparr>fld_i := Count 0\<rparr>) node xml_declaration"
    by (simp add: build_def)
  show "snd (priv_build b1 node xml) = snd (priv_build b2 node xml)"
    by (rule priv_build_any_state)
qed

text \<open>An index key is made of digits, so no index key is the key \<^verbatim>\<open>name\<close>.\<close>

lemma digit_char_digit: "d < 10 \<Longrightarrow> digit_char d \<in> set ''0123456789''"
  unfolding digit_char_def by (rule nth_mem) simp

lemma nat_to_string_digits: "set (nat_to_string n) \<subseteq> set ''0123456789''"
proof (induction n rule: nat_to_string.induct)
  case (1 n)
  show ?case
  proof (cases "n < 10")
    case True
    then have "nat_to_string n = [digit_char n]"
      by (simp add: nat_to_string.simps [of n])
    with True digit_char_digit [of n] show ?thesis by simp
  next
    case False
    then have "nat_to_string n = nat_to_string (n div 10) @ [digit_char (n mod 10)]"
      by (simp add: nat_to_string.simps [of n])
    moreover have "digit_char (n mod 10) \<in> set ''0123456789''"
      by (rule digit_char_digit) simp
    ultimately show ?thesis
      using "1.IH" [OF False] by simp
  qed
qed

lemma index_key_not_name: "nat_to_string i \<noteq> ''name''"
proof
  assume "nat_to_string i = ''name''"
  then have "CHR ''n'' \<in> set (nat_to_string i)" by simp
  with nat_to_string_digits [of i] have "CHR ''n'' \<in> set ''0123456789''" by blast
  then show False by simp
qed

lemma array_has_no_name: "get_prop (JArr xs) ''name'' = JUndefined"
proof -
  have "map_of (indexed xs) ''name'' = None"
  proof (cases "map_of (indexed xs) ''name''")
    case None
    then show ?thesis .
  next
    case (Some x)
    then have "(''name'', x) \<in> set (indexed xs)" by (rule map_of_SomeD)
    then have "''name'' \<in> set (map nat_to_string [0..<length xs])"
      unfolding indexed_def by (rule set_zip_leftD)
    then obtain i where "nat_to_string i = ''name''" by auto
    with index_key_not_name [of i] show ?thesis by simp
  qed
  then show ?thesis by (simp add: get_prop_def lookup_def)
qed

text \<open>
  C9. Every value that \<^verbatim>\<open>_.isObject\<close> accepts, an array included, takes the element
  branch, and the call throws the missing-name error whenever the \<^verbatim>\<open>name\<close> of such a node
  is falsy: absent or \<^verbatim>\<open>undefined\<close>, \<^verbatim>\<open>null\<close>, the empty string, 0 or \<^verbatim>\<open>false\<close>. An array
  has no \<^verbatim>\<open>name\<close>, so \<^verbatim>\<open>build\<close> on an array throws.
\<close>

theorem falsy_name_throws:
  "(isObject node \<and> \<not> truthy (get_prop node ''name'') \<longrightarrow>
      snd (priv_build b node xml) = Inl (Error ''XML node does not have name'')
      \<and> snd (build b node) = Inl (Error ''XML node does not have name''))
   \<and> (name \<in> {JUndefined, JNull, JStr [], JNum 0, JBool False} \<longrightarrow> \<not> truthy name)
   \<and> isObject (JArr xs)
   \<and> snd (build b (JArr xs)) = Inl (Error ''XML node does not have name'')"
proof (intro conjI impI)
  assume "isObject node \<and> \<not> truthy (get_prop node ''name'')"
  then show "snd (priv_build b node xml) = Inl (Error ''XML node does not have name'')"
    and "snd (build b node) = Inl (Error ''XML node does not have name'')"
    by (simp_all add: build_def priv_build_unnamed)
next
  assume "name \<in> {JUndefined, JNull, JStr [], JNum 0, JBool False}"
  then show "\<not> truthy name" by auto
next
  show "isObject (JArr xs)" by simp
  show "snd (build b (JArr xs)) = Inl (Error ''XML node does not have name'')"
    by (simp add: build_def priv_build_unnamed array_has_no_name)
qed

theorem falsy_name_throws_witness:
  "isObject (JObj [(''name'', JNum 0), (''children'', JArr [JStr ''t''])])
   \<and> \<not> truthy (get_prop (JObj [(''name'', JNum 0), (''children'', JArr [JStr ''t''])]) ''name'')
   \<and> snd (priv_build \<lparr>fld_i = Count 7, fld_c = JUndefined\<rparr>
        (JObj [(''name'', JNum 0), (''children'', JArr [JStr ''t''])]) ''<a>'')
     = Inl (Error ''XML node does not have name'')
   \<and> snd (build \<lparr>fld_i = Count 7, fld_c = JUndefined\<rparr>
        (JObj [(''name'', JNum 0), (''children'', JArr [JStr ''t''])]))
     = Inl (Error ''XML node does not have name'')
   \<and> \<not> truthy (JStr [])
   \<and> snd (build \<lparr>fld_i = Count 7, fld_c = JUndefined\<rparr> (JArr [JStr ''t'']))
     = Inl (Error ''XML node does not have name'')"
  using falsy_name_throws [of "JObj [(''name'', JNum 0), (''children'', JArr [JStr ''t''])]"
      "\<lparr>fld_i = Count 7, fld_c = JUndefined\<rparr>" "''<a>''" "JStr []" "[JStr ''t'']"]
  by (simp add: get_prop_def lookup_def)

lemma chars_render:
  "list_all2 (\<lambda>child r. \<forall>b' xml'. snd (priv_build b' child xml') = Inr (xml' @ r))
     (chars_of s) (map escape_char s)"
  by (induction s) (simp_all add: chars_of_def priv_build_text escaped_text_JStr prepend_Inr)

text \<open>
  C10. When the \<^verbatim>\<open>children\<close> of an element node is a non-empty string, and the name and
  the attribute values of the node convert to strings, the call does not throw: the
  children loop visits the characters of the string, each a text leaf of one character,
  and the element renders with an opening and a closing tag around the escape of the
  string.
\<close>

theorem string_children_as_text:
  assumes "isObject node" and "truthy (get_prop node ''name'')"
    and "ToString (get_prop node ''name'') = Inr n"
    and "add_attributes (get_prop node ''attributes'') [] = Inr a"
    and "get_prop node ''children'' = JStr s" and "s \<noteq> []"
  shows "\<exists>t. priv_escapeString (JStr s) = Inr (JStr t)
           \<and> snd (priv_build b node xml) = Inr (xml @ ''<'' @ n @ a @ ''>'' @ t @ ''</'' @ n @ ''>'')
           \<and> snd (build b node)
               = Inr (xml_declaration @ ''<'' @ n @ a @ ''>'' @ t @ ''</'' @ n @ ''>'')
           \<and> forEach_items (get_prop node ''children'') = map (\<lambda>c. JStr [c]) s
           \<and> list_all (\<lambda>child. \<not> isObject child) (forEach_items (get_prop node ''children''))"
proof -
  have nonempty: "\<not> isEmpty (get_prop node ''children'')"
    using assms(5,6) by simp
  have items: "forEach_items (get_prop node ''children'') = chars_of s"
    using assms(5) by (simp add: forEach_items_def)
  have render: "snd (priv_build c node m)
           = Inr (m @ ''<'' @ n @ a @ ''>'' @ concat (map escape_char s) @ ''</'' @ n @ ''>'')"
    for c m
    unfolding priv_build_children_renders [OF assms(1,2,3,4) nonempty] items
    using chars_render [of s] by auto
  show ?thesis
    using render [of b xml] render [of "b\<lparr>fld_i := Count 0\<rparr>" xml_declaration] items
    by (simp add: build_def chars_of_def list_all_iff priv_escapeString_JStr)
qed

theorem string_children_as_text_witness:
  "snd (build \<lparr>fld_i = Unset, fld_c = JUndefined\<rparr>
         (JObj [(''name'', JStr ''a''), (''children'', JStr ''x<y'')]))
     = Inr (xml_declaration @ ''<a>x&lt;y</a>'')
   \<and> priv_escapeString (JStr ''x<y'') = Inr (JStr ''x&lt;y'')
   \<and> forEach_items (JStr ''x<y'') = [JStr ''x'', JStr ''<'', JStr ''y'']"
  using string_children_as_text
      [of "JObj [(''name'', JStr ''a''), (''children'', JStr ''x<y'')]" "''a''" "[]" "''x<y''"
          "\<lparr>fld_i = Unset, fld_c = JUndefined\<rparr>" "[]"]
  by (auto simp add: node_simps priv_escapeString_JStr)

end
